theory Spec2Isabelle
  imports Main "HOL-Library.Word"
begin

section \<open>Values of the host language\<close>

text \<open>
  The harness is the TypeScript component \<open>Dosbox\<close>. A string of the program is modelled as a
  \<open>string\<close>: a list of 8-bit characters, read as the UTF-16 code units 0..255 (the Latin-1
  range, where a code unit is a code point, so that iterating a string by code points, as the
  destructuring \<open>[first, ...rest] = command\<close> does, is iterating the list).

  A key code is typed \<open>number\<close> in the source, but nothing checks the type at run time:
  \<open>manualMap[key]\<close> is a property read on an object literal, and it also finds the
  properties that every object inherits from \<open>Object.prototype\<close>. A value is therefore a
  number or such an inherited member (a function, or the prototype object itself).
\<close>

datatype jsval = Num nat | Inherited string

text \<open>Truthiness, as \<open>if (manualCode)\<close> tests it: a number is truthy unless it is zero; a
  function and an object are truthy.\<close>

fun truthy :: "jsval \<Rightarrow> bool" where
  "truthy (Num n) = (n \<noteq> 0)"
| "truthy (Inherited p) = True"

text \<open>
  An exception of the program. \<open>Error m\<close> is \<open>new Error(m)\<close>, as \<open>toKeyCodes\<close> throws it
  (the specification's InvalidStrokeError). \<open>TypeError p\<close> is the exception of the host
  language on reading property \<open>p\<close> of \<open>null\<close> or \<open>undefined\<close>; the program has no
  readiness or presence check of its own, and this is how it fails on an emulator that is
  not initialised (the specification's NotReadyError) and on a file record that is absent
  (the specification's FileNotFoundError).
\<close>

datatype error = Error string | TypeError string

subsection \<open>Case conversion\<close>

text \<open>
  \<open>char.toUpperCase().charCodeAt(0)\<close>: the first code unit of the upper-cased character.
  On the range 0..255 the letters a-z and the Latin-1 letters 224..254 (but the division
  sign 247) move down by 32; the micro sign 181 becomes the Greek capital mu 924; y with
  diaeresis 255 becomes 376; the sharp s 223 becomes the two letters SS, whose first code
  unit is 83; every other character is unchanged.
\<close>

definition upperCaseCode :: "char \<Rightarrow> nat" where
  "upperCaseCode c =
     (let n = of_char c :: nat in
      if 97 \<le> n \<and> n \<le> 122 then n - 32
      else if n = 181 then 924
      else if n = 223 then 83
      else if (224 \<le> n \<and> n \<le> 246) \<or> (248 \<le> n \<and> n \<le> 254) then n - 32
      else if n = 255 then 376
      else n)"

text \<open>\<open>command.toLowerCase()\<close>: A-Z and the Latin-1 capitals 192..222 (but the
  multiplication sign 215) move up by 32; every other character is unchanged.\<close>

definition lowerCaseChar :: "char \<Rightarrow> char" where
  "lowerCaseChar c =
     (let n = of_char c :: nat in
      if (65 \<le> n \<and> n \<le> 90) \<or> (192 \<le> n \<and> n \<le> 214) \<or> (216 \<le> n \<and> n \<le> 222)
      then char_of (n + 32) else c)"

definition toLowerCase :: "string \<Rightarrow> string" where
  "toLowerCase s = map lowerCaseChar s"

section \<open>StrokeTranslator: toKeyCodes\<close>

text \<open>The own properties of the object literal \<open>manualMap\<close>.\<close>

definition manualMap_own :: "(string \<times> nat) list" where
  "manualMap_own =
     [(''left'', 37), (''up'', 38), (''right'', 39), (''down'', 40),
      (''alt'', 18), (''enter'', 13), (''esc'', 27)]"

text \<open>The property names of \<open>Object.prototype\<close>, which an object literal inherits.\<close>

definition objectPrototype_keys :: "string list" where
  "objectPrototype_keys =
     [''constructor'', ''__proto__'', ''hasOwnProperty'', ''isPrototypeOf'',
      ''propertyIsEnumerable'', ''toLocaleString'', ''toString'', ''valueOf'',
      ''__defineGetter__'', ''__defineSetter__'', ''__lookupGetter__'', ''__lookupSetter__'']"

text \<open>\<open>manualMap[key]\<close>: an own property first, then an inherited one; \<open>None\<close> is
  \<open>undefined\<close>.\<close>

definition manualMap :: "string \<Rightarrow> jsval option" where
  "manualMap key =
     (case map_of manualMap_own key of
        Some n \<Rightarrow> Some (Num n)
      | None \<Rightarrow> if key \<in> set objectPrototype_keys then Some (Inherited key) else None)"

text \<open>A \<open>map\<close> and a \<open>flatMap\<close> whose callback may throw: the first exception ends the
  traversal.\<close>

fun mapE :: "('a \<Rightarrow> error + 'b) \<Rightarrow> 'a list \<Rightarrow> error + 'b list" where
  "mapE f [] = Inr []"
| "mapE f (x # xs) =
     (case f x of
        Inl e \<Rightarrow> Inl e
      | Inr y \<Rightarrow> (case mapE f xs of Inl e \<Rightarrow> Inl e | Inr ys \<Rightarrow> Inr (y # ys)))"

fun flatMapE :: "('a \<Rightarrow> error + 'b list) \<Rightarrow> 'a list \<Rightarrow> error + 'b list" where
  "flatMapE f [] = Inr []"
| "flatMapE f (x # xs) =
     (case f x of
        Inl e \<Rightarrow> Inl e
      | Inr ys \<Rightarrow> (case flatMapE f xs of Inl e \<Rightarrow> Inl e | Inr zs \<Rightarrow> Inr (ys @ zs)))"

text \<open>The callback of \<open>rest.map\<close>, for one character of a literal directive.\<close>

definition literalKeyCode :: "string \<Rightarrow> char \<Rightarrow> error + jsval" where
  "literalKeyCode command c =
     (let alphanumCode = upperCaseCode c in
      if 48 \<le> alphanumCode \<and> alphanumCode \<le> 57 then Inr (Num alphanumCode)
      else if 65 \<le> alphanumCode \<and> alphanumCode \<le> 90 then Inr (Num alphanumCode)
      else Inl (Error (''Got non-alphanumeric char '' @ [c] @ '' in command string ''
                       @ command @ ''.'')))"

text \<open>The lookup of a named key, after the test for a literal directive.\<close>

definition namedKeyCode :: "string \<Rightarrow> error + jsval list" where
  "namedKeyCode command =
     (case manualMap (toLowerCase command) of
        Some manualCode \<Rightarrow>
          if truthy manualCode then Inr [manualCode]
          else Inl (Error (''Can't convert '' @ command @ '' into keycode.''))
      | None \<Rightarrow> Inl (Error (''Can't convert '' @ command @ '' into keycode.'')))"

text \<open>The callback of \<open>strokes.flatMap\<close>, for one token. Of the empty string \<open>first\<close> is
  \<open>undefined\<close>, which is not \<open>":"\<close>.\<close>

definition strokeKeyCodes :: "string \<Rightarrow> error + jsval list" where
  "strokeKeyCodes command =
     (case command of
        [] \<Rightarrow> namedKeyCode command
      | first # rest \<Rightarrow>
          if first = CHR '':'' then mapE (literalKeyCode command) rest
          else namedKeyCode command)"

definition toKeyCodes :: "string list \<Rightarrow> error + jsval list" where
  "toKeyCodes strokes = flatMapE strokeKeyCodes strokes"

text \<open>The words of the specification: an alphanumeric character is an ASCII digit or an
  ASCII letter, and its key code is the ASCII ordinal of its upper-case form.\<close>

definition alphanumeric :: "char \<Rightarrow> bool" where
  "alphanumeric c =
     (let n = of_char c :: nat in
      (48 \<le> n \<and> n \<le> 57) \<or> (65 \<le> n \<and> n \<le> 90) \<or> (97 \<le> n \<and> n \<le> 122))"

definition upperOrdinal :: "char \<Rightarrow> nat" where
  "upperOrdinal c = (let n = of_char c :: nat in if 97 \<le> n \<and> n \<le> 122 then n - 32 else n)"

text \<open>
  A name in any letter case, in the words of the specification: \<open>caseVariant t name\<close> says
  that the token \<open>t\<close> is the name with each letter written either as the name has it or as
  the ASCII capital of a lower-case letter of the name (the capital's ordinal is 32 below
  the letter's). It does not use the program's \<open>toLowerCase\<close>.
\<close>

definition lowerLetter :: "char \<Rightarrow> bool" where
  "lowerLetter d = (97 \<le> (of_char d :: nat) \<and> (of_char d :: nat) \<le> 122)"

definition sameLetter :: "char \<Rightarrow> char \<Rightarrow> bool" where
  "sameLetter c d =
     (c = d \<or> (97 \<le> (of_char d :: nat) \<and> (of_char d :: nat) \<le> 122
               \<and> (of_char c :: nat) + 32 = of_char d))"

definition caseVariant :: "string \<Rightarrow> string \<Rightarrow> bool" where
  "caseVariant t name = list_all2 sameLetter t name"

text \<open>An invalid token in the words of the specification: a literal directive with a
  character that is not alphanumeric, or a name outside the vocabulary (the empty token is
  such a name).\<close>

definition invalidToken :: "string \<Rightarrow> bool" where
  "invalidToken t =
     (case t of
        [] \<Rightarrow> True
      | c # s \<Rightarrow>
          if c = CHR '':'' then \<not> list_all alphanumeric s
          else toLowerCase t
                 \<notin> set [''left'', ''up'', ''right'', ''down'', ''alt'', ''enter'', ''esc''])"

section \<open>InputSequencer: sendStrokes\<close>

text \<open>
  What a call does to the world, in order: a line on the debug console (the key code and
  whether the line says down), a key event injected into the emulator by
  \<open>dosapp.current.simulateKeyEvent(keycode, down)\<close>, and a suspension \<open>await sleep(ms)\<close>.
\<close>

datatype event = ConsoleDebug jsval bool | KeyEvent jsval bool | Sleep nat

text \<open>
  The \<open>for\<close> loop of \<open>sendStrokes\<close> over the key codes. \<open>ready\<close> says that
  \<open>dosapp.current\<close> holds the emulator's command interface; it is \<open>null\<close> until \<open>setup\<close>
  has started the emulator, and then reading \<open>simulateKeyEvent\<close> of it throws, after the
  first console line. The result is the trace and how the promise settles.
\<close>

fun sendStrokes_loop :: "bool \<Rightarrow> jsval list \<Rightarrow> event list \<times> (error + unit)" where
  "sendStrokes_loop ready [] = ([], Inr ())"
| "sendStrokes_loop ready (keycode # keycodes) =
     (if \<not> ready then ([ConsoleDebug keycode True], Inl (TypeError ''simulateKeyEvent''))
      else
        (case sendStrokes_loop ready keycodes of
           (trace, outcome) \<Rightarrow>
             ([ConsoleDebug keycode True, KeyEvent keycode True, Sleep 100,
               ConsoleDebug keycode False, KeyEvent keycode False, Sleep 100] @ trace,
              outcome)))"

definition sendStrokes :: "bool \<Rightarrow> string list \<Rightarrow> event list \<times> (error + unit)" where
  "sendStrokes ready strokes =
     (case toKeyCodes strokes of
        Inl e \<Rightarrow> ([], Inl e)
      | Inr keycodes \<Rightarrow> sendStrokes_loop ready keycodes)"

text \<open>The key events of a trace, and the events the emulator and the scheduler see (all
  but the console lines).\<close>

fun keyEvents :: "event list \<Rightarrow> (jsval \<times> bool) list" where
  "keyEvents [] = []"
| "keyEvents (KeyEvent k d # es) = (k, d) # keyEvents es"
| "keyEvents (e # es) = keyEvents es"

fun isConsole :: "event \<Rightarrow> bool" where
  "isConsole (ConsoleDebug k d) = True"
| "isConsole e = False"

definition dispatched :: "event list \<Rightarrow> event list" where
  "dispatched trace = filter (\<lambda>e. \<not> isConsole e) trace"

section \<open>ImageMatcher and ImageWatcher: hasImage, watchForImage\<close>

record WatchImage =
  sx :: int
  sy :: int
  sw :: int
  sh :: int
  imageData :: string

text \<open>The rendered frame, as the harness reads it: the encoding
  \<open>imgToBase64(getImageData(sx, sy, sw, sh))\<close> of each of its regions. The canvas and the
  encoder belong to the browser and to a module outside these sources.\<close>

type_synonym canvas = "int \<Rightarrow> int \<Rightarrow> int \<Rightarrow> int \<Rightarrow> string"

definition hasImage :: "canvas \<Rightarrow> WatchImage \<Rightarrow> bool" where
  "hasImage cv img = (cv (sx img) (sy img) (sw img) (sh img) = imageData img)"

text \<open>
  The loop of \<open>watchForImage\<close>. The world is what the loop finds each time it wakes:
  \<open>frames k\<close> is the canvas and \<open>aborted k\<close> the flag of the abort signal at wake-up number
  \<open>k\<close> (from 0); the signal is optional. The loop sleeps, then tests, and goes on while
  \<open>matched\<close> is falsy; it has no other exit, so it is a partial function: \<open>None\<close> is a call
  that never returns. A call that returns gives its trace, one suspension per poll.
\<close>

partial_function (option) watchForImage_loop ::
  "(nat \<Rightarrow> canvas) \<Rightarrow> WatchImage \<Rightarrow> (nat \<Rightarrow> bool) option \<Rightarrow> nat \<Rightarrow> nat \<Rightarrow> event list
    \<Rightarrow> event list option" where
  "watchForImage_loop frames img abortSignal interval k trace =
     (let matched = hasImage (frames k) img
                    \<or> (case abortSignal of None \<Rightarrow> False | Some aborted \<Rightarrow> aborted k)
      in if matched then Some (trace @ [Sleep interval])
         else watchForImage_loop frames img abortSignal interval (Suc k)
                (trace @ [Sleep interval]))"

text \<open>The parameter \<open>interval\<close> defaults to 64.\<close>

definition watchForImage ::
  "(nat \<Rightarrow> canvas) \<Rightarrow> WatchImage \<Rightarrow> (nat \<Rightarrow> bool) option \<Rightarrow> nat option \<Rightarrow> event list option" where
  "watchForImage frames img abortSignal interval =
     watchForImage_loop frames img abortSignal (case interval of None \<Rightarrow> 64 | Some i \<Rightarrow> i) 0 []"

text \<open>What a poll sees that ends the watch.\<close>

definition stops :: "(nat \<Rightarrow> canvas) \<Rightarrow> WatchImage \<Rightarrow> (nat \<Rightarrow> bool) option \<Rightarrow> nat \<Rightarrow> bool" where
  "stops frames img abortSignal k =
     (hasImage (frames k) img \<or> (case abortSignal of None \<Rightarrow> False | Some aborted \<Rightarrow> aborted k))"

section \<open>VirtualFileBridge: writeFile, getFile\<close>

type_synonym bytes = "8 word list"

text \<open>A record of the object store \<open>FILE_DATA\<close>; \<open>getFile\<close> reads its \<open>contents\<close>.\<close>

record file_record =
  contents :: bytes

text \<open>
  Modelled from the spec: the emulator's filesystem and its persistent store are outside
  the repository (the emulator runtime and the browser's database). The live filesystem
  maps a path to the bytes of the file there; the persistent store is a table of records
  keyed by file path; a forced sync makes the store hold exactly the files of the live
  filesystem. A store that does not exist yet is created empty on first access, so it is
  the empty table.
\<close>

record fsys =
  live :: "string \<rightharpoonup> bytes"
  store :: "string \<rightharpoonup> file_record"

definition analyzePath_exists :: "fsys \<Rightarrow> string \<Rightarrow> bool" where
  "analyzePath_exists fs path = (live fs path \<noteq> None)"

definition unlink :: "fsys \<Rightarrow> string \<Rightarrow> fsys" where
  "unlink fs path = fs\<lparr>live := (live fs)(path := None)\<rparr>"

definition createFile :: "fsys \<Rightarrow> string \<Rightarrow> bytes \<Rightarrow> fsys" where
  "createFile fs path c = fs\<lparr>live := (live fs)(path \<mapsto> c)\<rparr>"

definition syncFs :: "fsys \<Rightarrow> fsys" where
  "syncFs fs = fs\<lparr>store := (\<lambda>path. map_option (\<lambda>c. \<lparr>contents = c\<rparr>) (live fs path))\<rparr>"

definition idb_get :: "fsys \<Rightarrow> string \<Rightarrow> file_record option" where
  "idb_get fs path = store fs path"

text \<open>The calls a bridge operation makes on the filesystem and the store, in order.\<close>

datatype fs_op =
  AnalyzePath string | Unlink string | CreateFile string bytes | SyncFs | OpenDB | IdbGet string

text \<open>
  \<open>writeFile\<close> and \<open>getFile\<close>. \<open>runtimeRef\<close> is \<open>runtimeRef.current\<close>: \<open>None\<close> until
  \<open>setup\<close> has stored the runtime, and then reading \<open>fs\<close> of it throws. The result is the
  calls made, the runtime afterwards, and how the promise settles. In \<open>getFile\<close>,
  \<open>idb.get\<close> gives \<open>undefined\<close> for a key with no record, and reading \<open>contents\<close> of it
  throws.
\<close>

definition writeFile ::
  "fsys option \<Rightarrow> string \<Rightarrow> bytes \<Rightarrow> fs_op list \<times> fsys option \<times> (error + unit)" where
  "writeFile runtimeRef path c =
     (case runtimeRef of
        None \<Rightarrow> ([], None, Inl (TypeError ''fs''))
      | Some fs \<Rightarrow>
          if analyzePath_exists fs path
          then ([AnalyzePath path, Unlink path, CreateFile path c],
                Some (createFile (unlink fs path) path c), Inr ())
          else ([AnalyzePath path, CreateFile path c], Some (createFile fs path c), Inr ()))"

definition getFile ::
  "fsys option \<Rightarrow> string \<Rightarrow> fs_op list \<times> fsys option \<times> (error + bytes)" where
  "getFile runtimeRef path =
     (case runtimeRef of
        None \<Rightarrow> ([], None, Inl (TypeError ''fs''))
      | Some fs \<Rightarrow>
          (let synced = syncFs fs in
           case idb_get synced path of
             None \<Rightarrow> ([SyncFs, OpenDB, IdbGet path], Some synced, Inl (TypeError ''contents''))
           | Some file \<Rightarrow> ([SyncFs, OpenDB, IdbGet path], Some synced, Inr (contents file))))"

section \<open>Properties of toKeyCodes\<close>

lemma flatMapE_append:
  "flatMapE f xs = Inr a \<Longrightarrow> flatMapE f ys = Inr b \<Longrightarrow> flatMapE f (xs @ ys) = Inr (a @ b)"
  by (induction xs arbitrary: a) (auto split: sum.splits)

lemma literalKeyCode_alphanumeric:
  "alphanumeric c \<Longrightarrow> literalKeyCode command c = Inr (Num (upperOrdinal c))"
  by (auto simp: alphanumeric_def literalKeyCode_def upperOrdinal_def upperCaseCode_def Let_def)

lemma mapE_all_Inr:
  "(\<And>x. x \<in> set xs \<Longrightarrow> f x = Inr (g x)) \<Longrightarrow> mapE f xs = Inr (map g xs)"
  by (induction xs) auto

lemma toKeyCodes_single: "toKeyCodes [t] = strokeKeyCodes t"
  by (simp add: toKeyCodes_def split: sum.splits)

lemmas toKeyCodes_eval =
  toKeyCodes_def strokeKeyCodes_def namedKeyCode_def manualMap_def manualMap_own_def
  objectPrototype_keys_def toLowerCase_def lowerCaseChar_def literalKeyCode_def
  upperCaseCode_def char_of_eq_iff

text \<open>
  Claim C1. For a literal directive \<open>":" + s\<close> whose characters are all alphanumeric,
  \<open>toKeyCodes\<close> gives for that token one key code per character of \<open>s\<close>, in the order of
  the characters, each the ASCII ordinal of the character in upper case (so \<open>length s\<close> key
  codes). In a stroke list the key codes of the tokens follow each other in the order of
  the tokens: between tokens that translate to \<open>a\<close> and to \<open>b\<close>, the directive's key codes
  stand between \<open>a\<close> and \<open>b\<close>. The scenario: \<open>[":AB", "enter"]\<close> gives \<open>[65, 66, 13]\<close>.
\<close>

theorem toKeyCodes_literal_directive:
  "list_all alphanumeric s \<Longrightarrow>
     toKeyCodes [CHR '':'' # s] = Inr (map (\<lambda>c. Num (upperOrdinal c)) s)
   \<and> (toKeyCodes pre = Inr a \<and> toKeyCodes post = Inr b \<longrightarrow>
        toKeyCodes (pre @ [CHR '':'' # s] @ post)
          = Inr (a @ map (\<lambda>c. Num (upperOrdinal c)) s @ b))
   \<and> toKeyCodes ['':AB'', ''enter''] = Inr [Num 65, Num 66, Num 13]"
proof -
  assume s: "list_all alphanumeric s"
  have one: "toKeyCodes [CHR '':'' # s] = Inr (map (\<lambda>c. Num (upperOrdinal c)) s)"
    using s by (simp add: toKeyCodes_single strokeKeyCodes_def list_all_iff
        mapE_all_Inr literalKeyCode_alphanumeric)
  have ctx: "toKeyCodes (pre @ [CHR '':'' # s] @ post)
               = Inr (a @ map (\<lambda>c. Num (upperOrdinal c)) s @ b)"
    if pre: "toKeyCodes pre = Inr a" and post: "toKeyCodes post = Inr b"
    using flatMapE_append [OF pre [unfolded toKeyCodes_def]
        flatMapE_append [OF one [unfolded toKeyCodes_def] post [unfolded toKeyCodes_def]]]
    by (simp only: toKeyCodes_def)
  have scenario: "toKeyCodes ['':AB'', ''enter''] = Inr [Num 65, Num 66, Num 13]"
    by (simp add: toKeyCodes_eval)
  from one ctx scenario show ?thesis by blast
qed

theorem toKeyCodes_literal_directive_witness:
  "list_all alphanumeric ''aB7''
   \<and> toKeyCodes [''up''] = Inr [Num 38] \<and> toKeyCodes [''esc''] = Inr [Num 27]
   \<and> toKeyCodes ['':aB7''] = Inr [Num 65, Num 66, Num 55]
   \<and> toKeyCodes [''up'', '':aB7'', ''esc''] = Inr [Num 38, Num 65, Num 66, Num 55, Num 27]"
proof -
  have s: "list_all alphanumeric ''aB7''" by (simp add: alphanumeric_def)
  have pre: "toKeyCodes [''up''] = Inr [Num 38]" by (simp add: toKeyCodes_eval)
  have post: "toKeyCodes [''esc''] = Inr [Num 27]" by (simp add: toKeyCodes_eval)
  show ?thesis
    using s pre post
      toKeyCodes_literal_directive [OF s, of "[''up'']" "[Num 38]" "[''esc'']" "[Num 27]"]
    by (simp add: upperOrdinal_def)
qed

subsection \<open>Named keys in any letter case\<close>

text \<open>The program's \<open>toLowerCase\<close> folds every case variant of a lower-case name to the
  name, and nothing else: on such names it agrees with the specification's notion.\<close>

lemma lowerCaseChar_sameLetter:
  "sameLetter c d \<Longrightarrow> lowerLetter d \<Longrightarrow> lowerCaseChar c = d"
proof -
  assume s: "sameLetter c d" and l: "lowerLetter d"
  show ?thesis
  proof (cases "c = d")
    case True
    with l show ?thesis by (simp add: lowerCaseChar_def lowerLetter_def Let_def)
  next
    case False
    with s have e: "(of_char c :: nat) + 32 = of_char d" by (simp add: sameLetter_def)
    with l have "65 \<le> (of_char c :: nat) \<and> (of_char c :: nat) \<le> 90"
      by (simp add: lowerLetter_def)
    then have "lowerCaseChar c = char_of ((of_char c :: nat) + 32)"
      by (simp add: lowerCaseChar_def Let_def)
    also have "\<dots> = d" by (simp only: e char_of_char)
    finally show ?thesis .
  qed
qed

lemma sameLetter_lowerCaseChar:
  "lowerCaseChar c = d \<Longrightarrow> lowerLetter d \<Longrightarrow> sameLetter c d"
proof -
  assume e: "lowerCaseChar c = d" and l: "lowerLetter d"
  show ?thesis
  proof (cases "c = d")
    case True
    then show ?thesis by (simp add: sameLetter_def)
  next
    case False
    with e have d: "d = char_of ((of_char c :: nat) + 32)"
      and r: "(of_char c :: nat) \<le> 222"
      by (auto simp: lowerCaseChar_def Let_def split: if_splits)
    from d have "(of_char d :: nat) = ((of_char c :: nat) + 32) mod 256" by simp
    with r have "(of_char c :: nat) + 32 = of_char d" by simp
    with l show ?thesis by (simp add: sameLetter_def lowerLetter_def)
  qed
qed

lemma toLowerCase_caseVariant:
  "caseVariant t name \<Longrightarrow> list_all lowerLetter name \<Longrightarrow> toLowerCase t = name"
  unfolding caseVariant_def toLowerCase_def
  by (induction t name rule: list_all2_induct) (simp_all add: lowerCaseChar_sameLetter)

lemma caseVariant_iff_toLowerCase:
  "list_all lowerLetter name \<Longrightarrow> caseVariant t name \<longleftrightarrow> toLowerCase t = name"
proof
  assume "list_all lowerLetter name" "caseVariant t name"
  then show "toLowerCase t = name" by (simp add: toLowerCase_caseVariant)
next
  assume l: "list_all lowerLetter name" and e: "toLowerCase t = name"
  then show "caseVariant t name"
    unfolding caseVariant_def toLowerCase_def
  proof (induction t arbitrary: name)
    case Nil
    then show ?case by simp
  next
    case (Cons c cs)
    then show ?case by (cases name) (auto simp: sameLetter_lowerCaseChar)
  qed
qed

lemma vocabulary_lowerLetter:
  "(name, n) \<in> set [(''left'', 37::nat), (''up'', 38), (''right'', 39), (''down'', 40),
      (''alt'', 18), (''enter'', 13), (''esc'', 27)] \<Longrightarrow> list_all lowerLetter name"
  by (auto simp: lowerLetter_def)

lemma toKeyCodes_lowered_name:
  "(toLowerCase t, n) \<in> set [(''left'', 37), (''up'', 38), (''right'', 39), (''down'', 40),
      (''alt'', 18), (''enter'', 13), (''esc'', 27)] \<Longrightarrow> toKeyCodes [t] = Inr [Num n]"
proof -
  assume h: "(toLowerCase t, n) \<in> set [(''left'', 37), (''up'', 38), (''right'', 39),
      (''down'', 40), (''alt'', 18), (''enter'', 13), (''esc'', 27)]"
  then have m: "manualMap (toLowerCase t) = Some (Num n)" and n0: "n \<noteq> 0"
    by (auto simp: manualMap_def manualMap_own_def)
  from h obtain c cs where t: "t = c # cs" and "lowerCaseChar c \<noteq> CHR '':''"
    by (cases t) (auto simp: toLowerCase_def)
  then have "c \<noteq> CHR '':''" by (auto simp: lowerCaseChar_def)
  with t m n0 show ?thesis
    by (simp add: toKeyCodes_single strokeKeyCodes_def namedKeyCode_def)
qed

text \<open>
  Claim C3. A token that is one of the names left, up, right, down, alt, enter, esc in any
  letter case (each letter of the name in lower case or as its capital) gives exactly one
  key code, the value the table fixes for the name: 37, 38, 39, 40, 18, 13, 27. On the
  way, the program's lower-casing folds the token to the name.
\<close>

theorem toKeyCodes_named_key:
  "caseVariant t name \<Longrightarrow>
   (name, n) \<in> set [(''left'', 37), (''up'', 38), (''right'', 39), (''down'', 40),
      (''alt'', 18), (''enter'', 13), (''esc'', 27)] \<Longrightarrow>
   toLowerCase t = name \<and> toKeyCodes [t] = Inr [Num n]"
proof -
  assume v: "caseVariant t name"
    and h: "(name, n) \<in> set [(''left'', 37), (''up'', 38), (''right'', 39), (''down'', 40),
      (''alt'', 18), (''enter'', 13), (''esc'', 27)]"
  from v vocabulary_lowerLetter [OF h] have l: "toLowerCase t = name"
    by (rule toLowerCase_caseVariant)
  with h show ?thesis using toKeyCodes_lowered_name [of t n] by simp
qed

theorem toKeyCodes_named_key_witness:
  "caseVariant ''EnTer'' ''enter'' \<and> toKeyCodes [''EnTer''] = Inr [Num 13]
   \<and> caseVariant ''LEFT'' ''left'' \<and> toKeyCodes [''LEFT''] = Inr [Num 37]
   \<and> caseVariant ''esc'' ''esc'' \<and> toKeyCodes [''esc''] = Inr [Num 27]"
proof -
  have a: "caseVariant ''EnTer'' ''enter''" by (simp add: caseVariant_def sameLetter_def)
  have b: "caseVariant ''LEFT'' ''left''" by (simp add: caseVariant_def sameLetter_def)
  have c: "caseVariant ''esc'' ''esc''" by (simp add: caseVariant_def sameLetter_def)
  show ?thesis
    using a b c toKeyCodes_named_key [OF a, of 13] toKeyCodes_named_key [OF b, of 37]
      toKeyCodes_named_key [OF c, of 27]
    by simp
qed

subsection \<open>When the translation fails\<close>

lemma mapE_Inl: "mapE f xs = Inl e \<Longrightarrow> \<exists>x \<in> set xs. f x = Inl e"
  by (induction xs arbitrary: e) (auto split: sum.splits)

lemma flatMapE_Inl: "flatMapE f xs = Inl e \<Longrightarrow> \<exists>x \<in> set xs. f x = Inl e"
  by (induction xs arbitrary: e) (auto split: sum.splits)

lemma flatMapE_fails:
  "x \<in> set xs \<Longrightarrow> f x = Inl e \<Longrightarrow> \<exists>e'. flatMapE f xs = Inl e'"
  by (induction xs) (auto split: sum.splits)

lemma flatMapE_first_failure:
  "flatMapE f xs = Inr a \<Longrightarrow> f x = Inl e \<Longrightarrow> flatMapE f (xs @ x # ys) = Inl e"
  by (induction xs arbitrary: a) (auto split: sum.splits)

text \<open>The exception of a literal directive names the character and the token.\<close>

lemma literalKeyCode_Inl:
  "literalKeyCode command c = Inl e \<Longrightarrow>
     \<not> alphanumeric c
     \<and> e = Error (''Got non-alphanumeric char '' @ [c] @ '' in command string ''
                  @ command @ ''.'')"
  using literalKeyCode_alphanumeric [of c command]
  by (auto simp: literalKeyCode_def Let_def split: if_splits)

lemma namedKeyCode_Inl:
  "namedKeyCode t = Inl e \<Longrightarrow>
     toLowerCase t \<notin> set [''left'', ''up'', ''right'', ''down'', ''alt'', ''enter'', ''esc'']
     \<and> e = Error (''Can't convert '' @ t @ '' into keycode.'')"
  by (auto simp: namedKeyCode_def manualMap_def manualMap_own_def
      split: option.splits if_splits)

lemma strokeKeyCodes_Inl: "strokeKeyCodes t = Inl e \<Longrightarrow> invalidToken t"
proof (cases t)
  case Nil
  then show ?thesis by (simp add: invalidToken_def)
next
  case (Cons c s)
  assume f: "strokeKeyCodes t = Inl e"
  show ?thesis
  proof (cases "c = CHR '':''")
    case True
    with f Cons have "mapE (literalKeyCode t) s = Inl e" by (simp add: strokeKeyCodes_def)
    then obtain x where "x \<in> set s" "literalKeyCode t x = Inl e" using mapE_Inl by fastforce
    then have "\<not> list_all alphanumeric s"
      using literalKeyCode_Inl [of t x e] by (auto simp: list_all_iff)
    with True Cons show ?thesis by (simp add: invalidToken_def)
  next
    case False
    with f Cons have "namedKeyCode t = Inl e" by (simp add: strokeKeyCodes_def)
    from namedKeyCode_Inl [OF this] False Cons show ?thesis by (simp add: invalidToken_def)
  qed
qed

text \<open>One direction of the characterisation holds: the translation fails only on a list
  with an invalid token.\<close>

lemma toKeyCodes_fails_only_on_invalid:
  "toKeyCodes strokes = Inl e \<Longrightarrow> \<exists>t \<in> set strokes. invalidToken t"
proof -
  assume "toKeyCodes strokes = Inl e"
  then have "flatMapE strokeKeyCodes strokes = Inl e" by (simp only: toKeyCodes_def)
  from flatMapE_Inl [OF this] obtain t where "t \<in> set strokes" "strokeKeyCodes t = Inl e"
    by blast
  then show ?thesis using strokeKeyCodes_Inl by blast
qed

text \<open>
  Claim C2. The claim says that the translation fails exactly when some token is invalid.
  The other direction does not hold of the program. The name \<open>constructor\<close> is outside the
  vocabulary, but \<open>manualMap["constructor"]\<close> finds the member that the object literal
  inherits, which is truthy, and the translation returns it as a key code; the same holds
  of \<open>__proto__\<close>. And the sharp s (code unit 223) is not alphanumeric, but its upper case
  is SS, whose first code unit 83 passes the range test, so the literal directive made of
  it translates to \<open>[83]\<close>.
\<close>

theorem toKeyCodes_accepts_invalid_tokens:
  "invalidToken ''constructor''
   \<and> toKeyCodes [''constructor''] = Inr [Inherited ''constructor'']
   \<and> invalidToken ''__proto__''
   \<and> toKeyCodes [''__proto__''] = Inr [Inherited ''__proto__'']
   \<and> invalidToken [CHR '':'', CHR 0xDF]
   \<and> toKeyCodes [[CHR '':'', CHR 0xDF]] = Inr [Num 83]"
  by (simp add: invalidToken_def alphanumeric_def toKeyCodes_eval)

section \<open>Properties of sendStrokes\<close>

lemma loop_ready:
  "sendStrokes_loop True codes =
     (concat (map (\<lambda>c. [ConsoleDebug c True, KeyEvent c True, Sleep 100,
                           ConsoleDebug c False, KeyEvent c False, Sleep 100]) codes), Inr ())"
  by (induction codes) auto

lemma keyEvents_loop_ready:
  "keyEvents (fst (sendStrokes_loop True codes))
     = concat (map (\<lambda>c. [(c, True), (c, False)]) codes)"
  by (induction codes) (auto split: prod.splits)

lemma dispatched_loop_ready:
  "dispatched (fst (sendStrokes_loop True codes))
     = concat (map (\<lambda>c. [KeyEvent c True, Sleep 100, KeyEvent c False, Sleep 100]) codes)"
  by (induction codes) (auto simp: dispatched_def split: prod.splits)

lemma sendStrokes_Inr:
  "toKeyCodes strokes = Inr codes \<Longrightarrow> sendStrokes ready strokes = sendStrokes_loop ready codes"
  by (simp add: sendStrokes_def)

lemma sendStrokes_Inl:
  "toKeyCodes strokes = Inl e \<Longrightarrow> sendStrokes ready strokes = ([], Inl e)"
  by (simp add: sendStrokes_def)

text \<open>
  Claim C4. On an initialised emulator the loop over the key codes \<open>[c1, ..., cn]\<close> does,
  for each code in order: key down, a suspension of 100 ms, key up, a suspension of
  100 ms (each half-event after its console line). So the key events are
  \<open>down(c1), up(c1), ..., down(cn), up(cn)\<close> in this order, and in what the emulator and the
  scheduler see every key event is followed by the suspension of 100 ms before the next
  one. The call settles normally. \<open>sendStrokes\<close> runs this loop on the translation of its
  strokes.
\<close>

theorem sendStrokes_event_order:
  "sendStrokes_loop True codes =
     (concat (map (\<lambda>c. [ConsoleDebug c True, KeyEvent c True, Sleep 100,
                           ConsoleDebug c False, KeyEvent c False, Sleep 100]) codes), Inr ())
   \<and> keyEvents (fst (sendStrokes_loop True codes))
       = concat (map (\<lambda>c. [(c, True), (c, False)]) codes)
   \<and> dispatched (fst (sendStrokes_loop True codes))
       = concat (map (\<lambda>c. [KeyEvent c True, Sleep 100, KeyEvent c False, Sleep 100]) codes)
   \<and> (toKeyCodes strokes = Inr codes \<longrightarrow>
        sendStrokes True strokes = sendStrokes_loop True codes)"
  using loop_ready [of codes] keyEvents_loop_ready [of codes] dispatched_loop_ready [of codes]
    sendStrokes_Inr [of strokes codes True]
  by blast

theorem sendStrokes_event_order_witness:
  "toKeyCodes ['':AB'', ''enter''] = Inr [Num 65, Num 66, Num 13]
   \<and> dispatched (fst (sendStrokes True ['':AB'', ''enter''])) =
       [KeyEvent (Num 65) True, Sleep 100, KeyEvent (Num 65) False, Sleep 100,
        KeyEvent (Num 66) True, Sleep 100, KeyEvent (Num 66) False, Sleep 100,
        KeyEvent (Num 13) True, Sleep 100, KeyEvent (Num 13) False, Sleep 100]"
proof -
  have t: "toKeyCodes ['':AB'', ''enter''] = Inr [Num 65, Num 66, Num 13]"
    by (simp add: toKeyCodes_eval)
  have "sendStrokes True ['':AB'', ''enter''] = sendStrokes_loop True [Num 65, Num 66, Num 13]
        \<and> dispatched (fst (sendStrokes_loop True [Num 65, Num 66, Num 13]))
           = concat (map (\<lambda>c. [KeyEvent c True, Sleep 100, KeyEvent c False, Sleep 100])
               [Num 65, Num 66, Num 13])"
    using t sendStrokes_event_order [of "[Num 65, Num 66, Num 13]" "['':AB'', ''enter'']"]
    by blast
  then show ?thesis using t by simp
qed

text \<open>
  Claim C9, as amended. On an emulator that is not initialised, \<open>sendStrokes\<close> fails for
  every stroke list whose translation succeeds with at least one key code: after the first
  console line, reading \<open>simulateKeyEvent\<close> of \<open>null\<close> throws, and no key event has been
  injected. When the translation succeeds with no key code, the loop body never runs and
  the call settles normally.
\<close>

theorem sendStrokes_not_ready:
  "toKeyCodes strokes = Inr codes \<Longrightarrow>
     (codes \<noteq> [] \<longrightarrow>
        sendStrokes False strokes
          = ([ConsoleDebug (hd codes) True], Inl (TypeError ''simulateKeyEvent''))
        \<and> keyEvents (fst (sendStrokes False strokes)) = [])
   \<and> (codes = [] \<longrightarrow> sendStrokes False strokes = ([], Inr ()))"
proof -
  assume t: "toKeyCodes strokes = Inr codes"
  show ?thesis
  proof (cases codes)
    case Nil
    with t show ?thesis by (simp add: sendStrokes_Inr)
  next
    case (Cons k ks)
    with t show ?thesis by (simp add: sendStrokes_Inr)
  qed
qed

theorem sendStrokes_not_ready_witness:
  "toKeyCodes [''enter''] = Inr [Num 13]
   \<and> sendStrokes False [''enter'']
       = ([ConsoleDebug (Num 13) True], Inl (TypeError ''simulateKeyEvent''))
   \<and> keyEvents (fst (sendStrokes False [''enter''])) = []"
proof -
  have a: "toKeyCodes [''enter''] = Inr [Num 13]" by (simp add: toKeyCodes_eval)
  show ?thesis using a sendStrokes_not_ready [OF a] by simp
qed

text \<open>The claim as stated fails on the stroke list \<open>[":"]\<close>: it is not empty, its
  translation succeeds (with no key code), and the call on an emulator that is not
  initialised settles normally.\<close>

theorem sendStrokes_not_ready_counterexample:
  "['':''] \<noteq> [] \<and> toKeyCodes ['':''] = Inr [] \<and> sendStrokes False ['':''] = ([], Inr ())"
proof -
  have t: "toKeyCodes ['':''] = Inr []" by (simp add: toKeyCodes_def strokeKeyCodes_def)
  then show ?thesis by (simp add: sendStrokes_Inr)
qed

text \<open>
  The translation of the whole list comes before the loop: when it fails, the call fails
  with its exception and nothing has been dispatched, whatever the emulator's state and
  whatever tokens stand before the one that fails.
\<close>

lemma sendStrokes_fails_before_dispatch:
  "(toKeyCodes strokes = Inl e \<longrightarrow> sendStrokes ready strokes = ([], Inl e))
   \<and> (t \<in> set strokes \<and> strokeKeyCodes t = Inl e \<longrightarrow>
        (\<exists>e'. toKeyCodes strokes = Inl e' \<and> sendStrokes ready strokes = ([], Inl e')))
   \<and> (toKeyCodes pre = Inr codes \<and> strokeKeyCodes t = Inl e \<longrightarrow>
        sendStrokes ready (pre @ t # post) = ([], Inl e))"
proof (intro conjI impI)
  assume "toKeyCodes strokes = Inl e"
  then show "sendStrokes ready strokes = ([], Inl e)" by (rule sendStrokes_Inl)
next
  assume h: "t \<in> set strokes \<and> strokeKeyCodes t = Inl e"
  from h have "\<exists>e'. flatMapE strokeKeyCodes strokes = Inl e'"
    by (intro flatMapE_fails [of t strokes strokeKeyCodes e]) simp_all
  then obtain e' where e': "toKeyCodes strokes = Inl e'"
    by (auto simp: toKeyCodes_def)
  from sendStrokes_Inl [OF e', of ready] e'
  show "\<exists>e'. toKeyCodes strokes = Inl e' \<and> sendStrokes ready strokes = ([], Inl e')"
    by (intro exI [of _ e']) simp
next
  assume h: "toKeyCodes pre = Inr codes \<and> strokeKeyCodes t = Inl e"
  then have "flatMapE strokeKeyCodes (pre @ t # post) = Inl e"
    by (intro flatMapE_first_failure [of strokeKeyCodes pre codes t e post])
       (simp_all add: toKeyCodes_def)
  then have "toKeyCodes (pre @ t # post) = Inl e" by (simp only: toKeyCodes_def)
  then show "sendStrokes ready (pre @ t # post) = ([], Inl e)" by (rule sendStrokes_Inl)
qed

text \<open>
  Claim C10. The claim says that a stroke list with an invalid token makes the call fail
  with no key event injected. It fails of the program on \<open>["enter", "constructor"]\<close>: the
  second token is a name outside the vocabulary, but the translation accepts it (the
  defect of claim C2), so the call on an initialised emulator does not fail and injects
  four key events, two of them with the inherited member as key code.
\<close>

theorem sendStrokes_dispatches_invalid_token:
  "invalidToken ''constructor''
   \<and> toKeyCodes [''enter'', ''constructor''] = Inr [Num 13, Inherited ''constructor'']
   \<and> keyEvents (fst (sendStrokes True [''enter'', ''constructor''])) =
        [(Num 13, True), (Num 13, False),
         (Inherited ''constructor'', True), (Inherited ''constructor'', False)]
   \<and> snd (sendStrokes True [''enter'', ''constructor'']) = Inr ()"
proof -
  have i: "invalidToken ''constructor''" by (simp add: invalidToken_def toKeyCodes_eval)
  have t: "toKeyCodes [''enter'', ''constructor''] = Inr [Num 13, Inherited ''constructor'']"
    by (simp add: toKeyCodes_eval)
  show ?thesis unfolding sendStrokes_Inr [OF t] using i t by simp
qed

section \<open>Properties of watchForImage\<close>

lemma loop_step_stop:
  "stops frames img sig k \<Longrightarrow>
   watchForImage_loop frames img sig iv k tr = Some (tr @ [Sleep iv])"
  by (subst watchForImage_loop.simps) (simp add: stops_def)

lemma loop_step_go:
  "\<not> stops frames img sig k \<Longrightarrow>
   watchForImage_loop frames img sig iv k tr
     = watchForImage_loop frames img sig iv (Suc k) (tr @ [Sleep iv])"
  by (subst watchForImage_loop.simps) (simp add: stops_def)

text \<open>The loop returns at the first poll that sees a match or an abort.\<close>

lemma loop_returns:
  "(\<forall>j<d. \<not> stops frames img sig (k + j)) \<Longrightarrow> stops frames img sig (k + d) \<Longrightarrow>
   watchForImage_loop frames img sig iv k tr = Some (tr @ replicate (Suc d) (Sleep iv))"
proof (induction d arbitrary: k tr)
  case 0
  then show ?case by (simp add: loop_step_stop)
next
  case (Suc d)
  from Suc.prems(1) have go: "\<not> stops frames img sig k" by force
  have "\<forall>j<d. \<not> stops frames img sig (Suc k + j)"
    using Suc.prems(1) by (metis add_Suc_right add_Suc Suc_less_eq)
  moreover have "stops frames img sig (Suc k + d)" using Suc.prems(2) by simp
  ultimately have "watchForImage_loop frames img sig iv (Suc k) (tr @ [Sleep iv])
      = Some ((tr @ [Sleep iv]) @ replicate (Suc d) (Sleep iv))"
    by (rule Suc.IH)
  with go show ?case by (simp add: loop_step_go)
qed

text \<open>A loop that returns has seen a match or an abort: by the induction rule of the
  least fixed point.\<close>

lemma loop_Some_stops:
  assumes ret: "watchForImage_loop frames img sig iv k tr = Some r"
  shows "\<exists>j. stops frames img sig (k + j)"
proof (rule watchForImage_loop.raw_induct
    [where P = "\<lambda>frames img sig iv k tr r. \<exists>j. stops frames img sig (k + j)", OF _ ret])
  fix loop :: "(nat \<Rightarrow> canvas) \<Rightarrow> WatchImage \<Rightarrow> (nat \<Rightarrow> bool) option \<Rightarrow> nat \<Rightarrow> nat
      \<Rightarrow> event list \<Rightarrow> event list option"
  fix fr im sg i n t y
  assume IH: "\<And>fr im sg i n t y. loop fr im sg i n t = Some y \<Longrightarrow> \<exists>j. stops fr im sg (n + j)"
  assume body: "(let matched = hasImage (fr n) im
                    \<or> (case sg of None \<Rightarrow> False | Some aborted \<Rightarrow> aborted n)
      in if matched then Some (t @ [Sleep i])
         else loop fr im sg i (Suc n) (t @ [Sleep i])) = Some y"
  show "\<exists>j. stops fr im sg (n + j)"
  proof (cases "stops fr im sg n")
    case True
    then have "stops fr im sg (n + 0)" by simp
    then show ?thesis by blast
  next
    case False
    with body have "loop fr im sg i (Suc n) (t @ [Sleep i]) = Some y"
      by (simp add: stops_def)
    from IH [OF this] obtain j where "stops fr im sg (Suc n + j)" by blast
    then have "stops fr im sg (n + Suc j)" by simp
    then show ?thesis by blast
  qed
qed

lemma loop_diverges:
  "(\<forall>j. \<not> stops frames img sig (k + j)) \<Longrightarrow>
   watchForImage_loop frames img sig iv k tr = None"
  using loop_Some_stops [of frames img sig iv k tr]
  by (cases "watchForImage_loop frames img sig iv k tr") auto

lemma watchForImage_first_stop:
  "(\<forall>j<k. \<not> stops frames img sig j) \<Longrightarrow> stops frames img sig k \<Longrightarrow>
   watchForImage frames img sig iv
     = Some (replicate (Suc k) (Sleep (case iv of None \<Rightarrow> 64 | Some i \<Rightarrow> i)))"
  using loop_returns [of k frames img sig 0 "case iv of None \<Rightarrow> 64 | Some i \<Rightarrow> i" "[]"]
  by (simp add: watchForImage_def)

lemma watchForImage_by_stop:
  assumes st: "stops frames img sig k"
  shows "\<exists>n. 1 \<le> n \<and> n \<le> Suc k \<and> watchForImage frames img sig iv
          = Some (replicate n (Sleep (case iv of None \<Rightarrow> 64 | Some i \<Rightarrow> i)))"
proof -
  define m where "m = (LEAST j. stops frames img sig j)"
  have m: "stops frames img sig m" unfolding m_def using st by (rule LeastI)
  have mk: "m \<le> k" unfolding m_def using st by (rule Least_le)
  have before: "\<forall>j<m. \<not> stops frames img sig j"
    unfolding m_def using not_less_Least by blast
  have "watchForImage frames img sig iv
        = Some (replicate (Suc m) (Sleep (case iv of None \<Rightarrow> 64 | Some i \<Rightarrow> i)))"
    using before m by (rule watchForImage_first_stop)
  with mk show ?thesis by (intro exI [of _ "Suc m"]) simp
qed

lemma watchForImage_never:
  "(\<forall>j. \<not> stops frames img sig j) \<Longrightarrow> watchForImage frames img sig iv = None"
  using loop_diverges [of frames img sig 0] by (simp add: watchForImage_def)

text \<open>
  Claim C5. \<open>watchForImage\<close> sleeps for the interval (64 ms by default), then tests the
  matcher and the signal, and repeats. With \<open>I\<close> the interval:
  \<^item> if poll \<open>k\<close> is the first that sees the image or the signal set, the call returns after
    exactly \<open>k + 1\<close> suspensions of \<open>I\<close>, one before each test (also when the image is
    there from the start);
  \<^item> if the image is there at poll \<open>k\<close>, the call has returned by that poll;
  \<^item> if the signal is set at poll \<open>k\<close>, the call has returned by that poll, also when the
    image never appears;
  \<^item> if no poll sees the image, and there is no signal or it is never set, the call never
    returns: there is no timeout and no bound on the polls.
\<close>

theorem watchForImage_polls_until_match_or_abort:
  "((\<forall>j<k. \<not> stops frames img sig j) \<and> stops frames img sig k \<longrightarrow>
      watchForImage frames img sig iv
        = Some (replicate (Suc k) (Sleep (case iv of None \<Rightarrow> 64 | Some i \<Rightarrow> i))))
   \<and> (hasImage (frames k) img \<longrightarrow>
        (\<exists>n. 1 \<le> n \<and> n \<le> Suc k \<and> watchForImage frames img sig iv
          = Some (replicate n (Sleep (case iv of None \<Rightarrow> 64 | Some i \<Rightarrow> i)))))
   \<and> ((\<forall>j. \<not> hasImage (frames j) img) \<and> sig = Some aborted \<and> aborted k \<longrightarrow>
        (\<exists>n. 1 \<le> n \<and> n \<le> Suc k \<and> watchForImage frames img sig iv
          = Some (replicate n (Sleep (case iv of None \<Rightarrow> 64 | Some i \<Rightarrow> i)))))
   \<and> ((\<forall>j. \<not> hasImage (frames j) img)
        \<and> (case sig of None \<Rightarrow> True | Some aborted \<Rightarrow> \<forall>j. \<not> aborted j) \<longrightarrow>
        watchForImage frames img sig iv = None)"
proof (intro conjI impI)
  assume "(\<forall>j<k. \<not> stops frames img sig j) \<and> stops frames img sig k"
  then show "watchForImage frames img sig iv
        = Some (replicate (Suc k) (Sleep (case iv of None \<Rightarrow> 64 | Some i \<Rightarrow> i)))"
    using watchForImage_first_stop by blast
next
  assume "hasImage (frames k) img"
  then have "stops frames img sig k" by (simp add: stops_def)
  then show "\<exists>n. 1 \<le> n \<and> n \<le> Suc k \<and> watchForImage frames img sig iv
          = Some (replicate n (Sleep (case iv of None \<Rightarrow> 64 | Some i \<Rightarrow> i)))"
    by (rule watchForImage_by_stop)
next
  assume "(\<forall>j. \<not> hasImage (frames j) img) \<and> sig = Some aborted \<and> aborted k"
  then have "stops frames img sig k" by (simp add: stops_def)
  then show "\<exists>n. 1 \<le> n \<and> n \<le> Suc k \<and> watchForImage frames img sig iv
          = Some (replicate n (Sleep (case iv of None \<Rightarrow> 64 | Some i \<Rightarrow> i)))"
    by (rule watchForImage_by_stop)
next
  assume "(\<forall>j. \<not> hasImage (frames j) img)
        \<and> (case sig of None \<Rightarrow> True | Some aborted \<Rightarrow> \<forall>j. \<not> aborted j)"
  then have "\<forall>j. \<not> stops frames img sig j"
    by (auto simp: stops_def split: option.splits)
  then show "watchForImage frames img sig iv = None" by (rule watchForImage_never)
qed

theorem watchForImage_polls_until_match_or_abort_witness:
  "hasImage ((\<lambda>(k::nat) x y w h. if k < 2 then ''a'' else ''b'') 3)
       \<lparr>sx = 0, sy = 0, sw = 8, sh = 8, imageData = ''b''\<rparr>
   \<and> watchForImage (\<lambda>k x y w h. if k < 2 then ''a'' else ''b'')
       \<lparr>sx = 0, sy = 0, sw = 8, sh = 8, imageData = ''b''\<rparr> None None
       = Some [Sleep 64, Sleep 64, Sleep 64]
   \<and> (\<exists>n. 1 \<le> n \<and> n \<le> Suc 3
        \<and> watchForImage (\<lambda>k x y w h. if k < 2 then ''a'' else ''b'')
            \<lparr>sx = 0, sy = 0, sw = 8, sh = 8, imageData = ''b''\<rparr> None None
            = Some (replicate n (Sleep 64)))
   \<and> watchForImage (\<lambda>k x y w h. ''a'')
       \<lparr>sx = 0, sy = 0, sw = 8, sh = 8, imageData = ''b''\<rparr> (Some (\<lambda>k. 1 \<le> k)) (Some 10)
       = Some [Sleep 10, Sleep 10]
   \<and> (\<exists>n. 1 \<le> n \<and> n \<le> Suc 5
        \<and> watchForImage (\<lambda>k x y w h. ''a'')
            \<lparr>sx = 0, sy = 0, sw = 8, sh = 8, imageData = ''b''\<rparr>
            (Some (\<lambda>k. 1 \<le> k)) (Some 10)
            = Some (replicate n (Sleep 10)))
   \<and> watchForImage (\<lambda>k x y w h. ''a'')
       \<lparr>sx = 0, sy = 0, sw = 8, sh = 8, imageData = ''b''\<rparr> None None = None"
proof -
  let ?I = "\<lparr>sx = 0, sy = 0, sw = 8, sh = 8, imageData = ''b''\<rparr>"
  let ?F = "\<lambda>(k::nat) (x::int) (y::int) (w::int) (h::int). if k < 2 then ''a'' else ''b''"
  let ?G = "\<lambda>(k::nat) (x::int) (y::int) (w::int) (h::int). ''a''"
  let ?S = "\<lambda>k::nat. 1 \<le> k"
  have h: "hasImage (?F 3) ?I" by (simp add: hasImage_def)
  have a: "(\<forall>j<2. \<not> stops ?F ?I None j) \<and> stops ?F ?I None 2"
    by (simp add: stops_def hasImage_def)
  have b: "(\<forall>j<1. \<not> stops ?G ?I (Some ?S) j) \<and> stops ?G ?I (Some ?S) 1"
    by (simp add: stops_def hasImage_def)
  have c: "(\<forall>j. \<not> hasImage (?G j) ?I)" by (simp add: hasImage_def)
  have d: "(case None :: (nat \<Rightarrow> bool) option of None \<Rightarrow> True
           | Some aborted \<Rightarrow> \<forall>j. \<not> aborted j)"
    by simp
  have 1: "watchForImage ?F ?I None None = Some (replicate (Suc 2) (Sleep 64))"
    using a watchForImage_polls_until_match_or_abort [of 2 ?F ?I None None] by simp
  have 2: "\<exists>n. 1 \<le> n \<and> n \<le> Suc 3
             \<and> watchForImage ?F ?I None None = Some (replicate n (Sleep 64))"
    using h watchForImage_polls_until_match_or_abort [of 3 ?F ?I None None] by simp
  have 3: "watchForImage ?G ?I (Some ?S) (Some 10) = Some (replicate (Suc 1) (Sleep 10))"
    using b watchForImage_polls_until_match_or_abort [of 1 ?G ?I "Some ?S" "Some 10"]
    by simp
  have 4: "\<exists>n. 1 \<le> n \<and> n \<le> Suc 5
             \<and> watchForImage ?G ?I (Some ?S) (Some 10) = Some (replicate n (Sleep 10))"
    using c watchForImage_polls_until_match_or_abort [of 5 ?G ?I "Some ?S" "Some 10" ?S]
    by simp
  have 5: "watchForImage ?G ?I None None = None"
    using c d watchForImage_polls_until_match_or_abort [of 0 ?G ?I None None] by simp
  have r: "replicate (Suc 2) (Sleep 64) = [Sleep 64, Sleep 64, Sleep 64]"
    "replicate (Suc 1) (Sleep 10) = [Sleep 10, Sleep 10]"
    by (simp_all add: numeral_2_eq_2)
  from h 1 2 3 4 5 show ?thesis unfolding r by blast
qed

section \<open>Properties of writeFile and getFile\<close>

lemma live_createFile: "live (createFile fs path c) = (live fs)(path \<mapsto> c)"
  by (simp add: createFile_def)

lemma createFile_unlink: "createFile (unlink fs path) path c = createFile fs path c"
  by (simp add: createFile_def unlink_def)

lemma writeFile_ready:
  "writeFile (Some fs) path c =
     (if analyzePath_exists fs path then [AnalyzePath path, Unlink path, CreateFile path c]
      else [AnalyzePath path, CreateFile path c],
      Some (createFile fs path c), Inr ())"
  by (simp add: writeFile_def createFile_unlink)

lemma getFile_ready:
  "getFile (Some fs) path =
     ([SyncFs, OpenDB, IdbGet path], Some (syncFs fs),
      case live fs path of None \<Rightarrow> Inl (TypeError ''contents'') | Some c \<Rightarrow> Inr c)"
  by (simp add: getFile_def Let_def idb_get_def syncFs_def split: option.splits)

text \<open>
  Claim C6. On a started runtime, for every path and every non-empty byte sequence,
  whatever the filesystem held before (a file at the path or none), \<open>writeFile\<close> settles
  normally and \<open>getFile\<close> of the same path on the runtime it leaves, which syncs first,
  gives exactly the bytes written.
\<close>

theorem writeFile_getFile_roundtrip:
  "c \<noteq> [] \<Longrightarrow>
     (case writeFile (Some fs) path c of
        (ops, runtime, outcome) \<Rightarrow>
          outcome = Inr () \<and> snd (snd (getFile runtime path)) = Inr c)"
  by (simp add: writeFile_ready getFile_ready live_createFile)

theorem writeFile_getFile_roundtrip_witness:
  "[1, 2, 3 :: 8 word] \<noteq> []
   \<and> snd (snd (getFile (fst (snd (writeFile
        (Some \<lparr>live = Map.empty(''/game/save.dat'' \<mapsto> [9]), store = Map.empty\<rparr>)
        ''/game/save.dat'' [1, 2, 3]))) ''/game/save.dat'')) = Inr [1, 2, 3]
   \<and> snd (snd (getFile (fst (snd (writeFile
        (Some \<lparr>live = Map.empty, store = Map.empty\<rparr>)
        ''/game/save.dat'' [1, 2, 3]))) ''/game/save.dat'')) = Inr [1, 2, 3]"
  using writeFile_getFile_roundtrip [where c = "[1, 2, 3]" and path = "''/game/save.dat''"
        and fs = "\<lparr>live = Map.empty(''/game/save.dat'' \<mapsto> [9]), store = Map.empty\<rparr>"]
    writeFile_getFile_roundtrip [where c = "[1, 2, 3]" and path = "''/game/save.dat''"
        and fs = "\<lparr>live = Map.empty, store = Map.empty\<rparr>"]
  by (simp split: prod.splits)

text \<open>
  Claim C7. On a started runtime \<open>writeFile\<close> asks whether the path exists in the live
  filesystem; if it does, it unlinks the path and then creates the file with the given
  bytes; if it does not, it creates the file at once. So the unlink happens when and only
  when a file was there, the creation comes last, and afterwards the live filesystem holds
  the given bytes at the path and is unchanged elsewhere.
\<close>

theorem writeFile_unlink_then_create:
  "writeFile (Some fs) path c =
     (if live fs path \<noteq> None then [AnalyzePath path, Unlink path, CreateFile path c]
      else [AnalyzePath path, CreateFile path c],
      Some (fs\<lparr>live := (live fs)(path \<mapsto> c)\<rparr>), Inr ())
   \<and> (Unlink path \<in> set (fst (writeFile (Some fs) path c))) = (live fs path \<noteq> None)
   \<and> last (fst (writeFile (Some fs) path c)) = CreateFile path c"
  by (simp add: writeFile_ready analyzePath_exists_def createFile_def)

text \<open>
  Claim C8. On a started runtime, when the persistent store holds no record for the path
  after the forced sync, \<open>getFile\<close> fails: \<open>idb.get\<close> gives \<open>undefined\<close> and reading its
  \<open>contents\<close> throws (the specification's FileNotFoundError). So \<open>getFile("/missing")\<close>
  fails on a store with no such record.
\<close>

theorem getFile_missing_record:
  "idb_get (syncFs fs) path = None \<Longrightarrow>
     getFile (Some fs) path
       = ([SyncFs, OpenDB, IdbGet path], Some (syncFs fs), Inl (TypeError ''contents''))"
  by (simp add: getFile_def Let_def)

theorem getFile_missing_record_witness:
  "idb_get (syncFs \<lparr>live = Map.empty(''/game/save.dat'' \<mapsto> [1, 2, 3]), store = Map.empty\<rparr>)
       ''/missing'' = None
   \<and> snd (snd (getFile
        (Some \<lparr>live = Map.empty(''/game/save.dat'' \<mapsto> [1, 2, 3]), store = Map.empty\<rparr>)
        ''/missing'')) = Inl (TypeError ''contents'')"
proof -
  have a: "idb_get (syncFs \<lparr>live = Map.empty(''/game/save.dat'' \<mapsto> [1, 2, 3]),
             store = Map.empty\<rparr>) ''/missing'' = None"
    by (simp add: idb_get_def syncFs_def)
  show ?thesis using a getFile_missing_record [OF a] by simp
qed

end
